theory Spec2Isabelle
  imports Main "HOL-Library.Sublist"
begin

section \<open>Python values and exceptions\<close>

text \<open>
  The program is \<^verbatim>\<open>template_generator.py\<close>. Python strings are modelled as
  \<^typ>\<open>string\<close>; a \<^typ>\<open>char\<close> stands for a code point below 256. A cell of a
  \<^verbatim>\<open>csv.DictReader\<close> row is a \<^verbatim>\<open>str\<close> or \<^verbatim>\<open>None\<close> (the
  \<^verbatim>\<open>restval\<close> of a row that is shorter than the header).
\<close>

datatype pyval = Str string | PyNone

text \<open>\<^verbatim>\<open>str(var_value)\<close>\<close>

fun str_of :: "pyval \<Rightarrow> string" where
  "str_of (Str s) = s"
| "str_of PyNone = ''None''"

text \<open>
  The exceptions that escape a function of the program. \<open>BadReplacement\<close> is the
  \<^verbatim>\<open>re.error\<close> (or \<^verbatim>\<open>IndexError\<close>) that \<^verbatim>\<open>re.sub\<close> raises when it
  compiles a malformed replacement template; \<open>AttributeError\<close> is
  \<^verbatim>\<open>None.strip()\<close>; \<open>KeyError\<close> is a failed \<^verbatim>\<open>row[col]\<close>.
\<close>

datatype py_error = BadReplacement | AttributeError | KeyError

definition bslash :: char where
  "bslash = CHR 0x5C"

definition newline :: char where
  "newline = CHR 0x0A"

section \<open>The replacement template of \<^verbatim>\<open>re.sub\<close>\<close>

text \<open>
  \<^verbatim>\<open>re.sub(pattern, repl, string)\<close> with a string \<^verbatim>\<open>repl\<close> does not insert
  \<^verbatim>\<open>repl\<close> itself: it compiles it as a replacement template first
  (\<^verbatim>\<open>re._parser.parse_template\<close>), before any matching. The tokenizer reads a
  backslash together with the character after it; a backslash at the very end is an
  error.
\<close>

datatype rtoken = Ch char | Esc char

fun cons_ok :: "'a \<Rightarrow> py_error + 'a list \<Rightarrow> py_error + 'a list" where
  "cons_ok x (Inl e) = Inl e"
| "cons_ok x (Inr xs) = Inr (x # xs)"

fun tokenize :: "string \<Rightarrow> py_error + rtoken list" where
  "tokenize [] = Inr []"
| "tokenize [c] = (if c = bslash then Inl BadReplacement else Inr [Ch c])"
| "tokenize (c # d # cs) =
     (if c = bslash then cons_ok (Esc d) (tokenize cs)
      else cons_ok (Ch c) (tokenize (d # cs)))"

fun tok_text :: "rtoken \<Rightarrow> string" where
  "tok_text (Ch c) = [c]"
| "tok_text (Esc c) = [bslash, c]"

text \<open>A compiled template is a list of literal pieces and references to group 0.\<close>

datatype tpart = TLit string | TGroup0

definition is_oct :: "char \<Rightarrow> bool" where
  "is_oct c = (c \<in> set ''01234567'')"

definition is_digit :: "char \<Rightarrow> bool" where
  "is_digit c = (c \<in> set ''0123456789'')"

definition is_ascii_letter :: "char \<Rightarrow> bool" where
  "is_ascii_letter c =
     (c \<in> set ''abcdefghijklmnopqrstuvwxyzABCDEFGHIJKLMNOPQRSTUVWXYZ'')"

definition digit_val :: "char \<Rightarrow> nat" where
  "digit_val c = of_char c - of_char (CHR ''0'')"

text \<open>\<^verbatim>\<open>ESCAPES\<close> of \<^verbatim>\<open>re._parser\<close>: \<^verbatim>\<open>\a \b \f \n \r \t \v \\\<close>.\<close>

definition escape_char :: "char \<Rightarrow> char option" where
  "escape_char e =
     (if e = CHR ''a'' then Some (CHR 0x07)
      else if e = CHR ''b'' then Some (CHR 0x08)
      else if e = CHR ''f'' then Some (CHR 0x0C)
      else if e = CHR ''n'' then Some (CHR 0x0A)
      else if e = CHR ''r'' then Some (CHR 0x0D)
      else if e = CHR ''t'' then Some (CHR 0x09)
      else if e = CHR ''v'' then Some (CHR 0x0B)
      else if e = bslash then Some bslash
      else None)"

text \<open>\<^verbatim>\<open>s.next in OCTDIGITS\<close> followed by \<^verbatim>\<open>sget()\<close>: one octal digit, if it is next.\<close>

fun take_oct :: "rtoken list \<Rightarrow> (nat \<times> rtoken list) option" where
  "take_oct (Ch d # ts) = (if is_oct d then Some (digit_val d, ts) else None)"
| "take_oct ts = None"

text \<open>\<^verbatim>\<open>s.getuntil(">", "group name")\<close>: the text up to the next \<^verbatim>\<open>>\<close> token.\<close>

fun get_until_gt :: "rtoken list \<Rightarrow> (string \<times> rtoken list) option" where
  "get_until_gt [] = None"
| "get_until_gt (t # ts) =
     (if t = Ch (CHR ''>'') then Some ([], ts)
      else (case get_until_gt ts of
              None \<Rightarrow> None
            | Some (name, rest) \<Rightarrow> Some (tok_text t @ name, rest)))"

text \<open>
  \<^verbatim>\<open>parse_template\<close> for a pattern without groups, which is what
  \<^verbatim>\<open>re.escape\<close> produces: \<^verbatim>\<open>\g<0>\<close> (a name of ASCII digits with value 0) is the
  whole match and every other group reference is an error; \<^verbatim>\<open>\0\<close>, \<^verbatim>\<open>\0o\<close>,
  \<^verbatim>\<open>\0oo\<close> and \<^verbatim>\<open>\ooo\<close> are octal escapes; the letters of \<^verbatim>\<open>ESCAPES\<close> are
  control characters; any other ASCII letter is a bad escape; a backslash before any
  other character stays, with that character. (Up to Python 3.11 a few more spellings
  of the group number 0, such as \<^verbatim>\<open>\g<+0>\<close>, are accepted with a deprecation
  warning; from 3.12 on they are errors, as here.)
\<close>

function parse_tokens :: "rtoken list \<Rightarrow> py_error + tpart list" where
  "parse_tokens [] = Inr []"
| "parse_tokens (Ch c # ts) = cons_ok (TLit [c]) (parse_tokens ts)"
| "parse_tokens (Esc e # ts) =
     (if e = CHR ''g'' then
        (case ts of
           [] \<Rightarrow> Inl BadReplacement
         | t # ts1 \<Rightarrow>
             if t \<noteq> Ch (CHR ''<'') then Inl BadReplacement
             else (case get_until_gt ts1 of
                     None \<Rightarrow> Inl BadReplacement
                   | Some (name, rest) \<Rightarrow>
                       if name \<noteq> [] \<and> list_all (\<lambda>c. c = CHR ''0'') name
                       then cons_ok TGroup0 (parse_tokens rest)
                       else Inl BadReplacement))
      else if e = CHR ''0'' then
        (case take_oct ts of
           None \<Rightarrow> cons_ok (TLit [char_of (0::nat)]) (parse_tokens ts)
         | Some (d1, ts1) \<Rightarrow>
             (case take_oct ts1 of
                None \<Rightarrow> cons_ok (TLit [char_of d1]) (parse_tokens ts1)
              | Some (d2, ts2) \<Rightarrow> cons_ok (TLit [char_of (8 * d1 + d2)]) (parse_tokens ts2)))
      else if is_digit e then
        (if \<not> is_oct e then Inl BadReplacement
         else (case take_oct ts of
                 None \<Rightarrow> Inl BadReplacement
               | Some (d2, ts1) \<Rightarrow>
                   (case take_oct ts1 of
                      None \<Rightarrow> Inl BadReplacement
                    | Some (d3, ts2) \<Rightarrow>
                        if 64 * digit_val e + 8 * d2 + d3 > 255 then Inl BadReplacement
                        else cons_ok (TLit [char_of (64 * digit_val e + 8 * d2 + d3)])
                               (parse_tokens ts2))))
      else (case escape_char e of
              Some c \<Rightarrow> cons_ok (TLit [c]) (parse_tokens ts)
            | None \<Rightarrow>
                if is_ascii_letter e then Inl BadReplacement
                else cons_ok (TLit [bslash, e]) (parse_tokens ts)))"
  by pat_completeness auto
termination
proof -
  have oct: "length r < length ts" if "take_oct ts = Some (d, r)" for ts d r
    using that by (induction ts rule: take_oct.induct) (auto split: if_splits)
  have gt: "length r < length ts" if "get_until_gt ts = Some (n, r)" for ts n r
    using that by (induction ts arbitrary: n r) (auto split: if_splits option.splits)
  show ?thesis
    by (relation "measure length") (auto dest!: oct gt)
qed

definition parse_template :: "string \<Rightarrow> py_error + tpart list" where
  "parse_template repl =
     (case tokenize repl of Inl e \<Rightarrow> Inl e | Inr ts \<Rightarrow> parse_tokens ts)"

text \<open>The text a compiled template inserts for a match \<open>m\<close>.\<close>

fun expand_part :: "string \<Rightarrow> tpart \<Rightarrow> string" where
  "expand_part m (TLit s) = s"
| "expand_part m TGroup0 = m"

definition expand :: "tpart list \<Rightarrow> string \<Rightarrow> string" where
  "expand parts m = concat (map (expand_part m) parts)"

section \<open>\<^verbatim>\<open>re.sub\<close> with an escaped literal pattern\<close>

text \<open>
  The patterns of the program are \<^verbatim>\<open>r'\$\{' + re.escape(var_name) + r'\}'\<close> and
  \<^verbatim>\<open>r'\{\{' + re.escape(var_name) + r'\}\}'\<close>: each matches exactly one literal
  text, which is never empty. \<open>replace_all\<close> is the scan of \<^verbatim>\<open>re.sub\<close> for
  such a pattern: leftmost match first, the scan goes on behind the match, the inserted
  text is not looked at again.
\<close>

fun replace_all :: "string \<Rightarrow> string \<Rightarrow> string \<Rightarrow> string" where
  "replace_all pat rep [] = []"
| "replace_all pat rep (c # cs) =
     (if pat \<noteq> [] \<and> prefix pat (c # cs)
      then rep @ replace_all pat rep (drop (length pat - 1) cs)
      else c # replace_all pat rep cs)"

definition re_sub :: "string \<Rightarrow> string \<Rightarrow> string \<Rightarrow> py_error + string" where
  "re_sub lit repl s =
     (case parse_template repl of
        Inl e \<Rightarrow> Inl e
      | Inr parts \<Rightarrow> Inr (replace_all lit (expand parts lit) s))"

section \<open>The Substitution Engine: \<^verbatim>\<open>replace_variables\<close>\<close>

definition ph_dollar :: "string \<Rightarrow> string" where
  "ph_dollar name = ''${'' @ name @ ''}''"

definition ph_brace :: "string \<Rightarrow> string" where
  "ph_brace name = ''{{'' @ name @ ''}}''"

text \<open>
  \<^verbatim>\<open>variables.items()\<close> is the list of the dictionary's items in insertion order.
  Each loop of \<^verbatim>\<open>replace_variables\<close> updates \<^verbatim>\<open>result\<close> once per item.
\<close>

fun dollar_pass :: "(string \<times> pyval) list \<Rightarrow> string \<Rightarrow> py_error + string" where
  "dollar_pass [] result = Inr result"
| "dollar_pass ((var_name, var_value) # items) result =
     (case re_sub (ph_dollar var_name) (str_of var_value) result of
        Inl e \<Rightarrow> Inl e
      | Inr result' \<Rightarrow> dollar_pass items result')"

fun brace_pass :: "(string \<times> pyval) list \<Rightarrow> string \<Rightarrow> py_error + string" where
  "brace_pass [] result = Inr result"
| "brace_pass ((var_name, var_value) # items) result =
     (case re_sub (ph_brace var_name) (str_of var_value) result of
        Inl e \<Rightarrow> Inl e
      | Inr result' \<Rightarrow> brace_pass items result')"

definition replace_variables :: "string \<Rightarrow> (string \<times> pyval) list \<Rightarrow> py_error + string" where
  "replace_variables template variables =
     (case dollar_pass variables template of
        Inl e \<Rightarrow> Inl e
      | Inr result \<Rightarrow> brace_pass variables result)"

section \<open>The Table Reader: \<^verbatim>\<open>read_csv\<close>\<close>

text \<open>
  The input of the model is what \<^verbatim>\<open>csv.reader\<close> yields: one list of fields per
  line. \<^verbatim>\<open>csv.DictReader\<close> takes the first one as \<^verbatim>\<open>fieldnames\<close>
  (\<^verbatim>\<open>None\<close> when there is no line at all), skips every later row that is
  \<^verbatim>\<open>[]\<close>, and turns each other row into \<^verbatim>\<open>dict(zip(fieldnames, row))\<close>, where
  a later item with the same key wins; the fields a short row lacks are then set to
  \<^verbatim>\<open>None\<close>. The surplus fields of a long row are stored under the key
  \<^verbatim>\<open>None\<close>, which no column name equals, so the model leaves them out.
\<close>

type_synonym row = "string \<rightharpoonup> pyval"

definition dict_of :: "(string \<times> pyval) list \<Rightarrow> row" where
  "dict_of items = fold (\<lambda>(k, v) d. d(k \<mapsto> v)) items Map.empty"

definition dict_row :: "string list \<Rightarrow> string list \<Rightarrow> row" where
  "dict_row fieldnames r =
     (let d = dict_of (zip fieldnames (map Str r))
      in if length fieldnames > length r
         then fold (\<lambda>key d. d(key \<mapsto> PyNone)) (drop (length r) fieldnames) d
         else d)"

fun read_csv :: "string list list \<Rightarrow> string list option \<times> row list" where
  "read_csv [] = (None, [])"
| "read_csv (fieldnames # lines) =
     (Some fieldnames, map (dict_row fieldnames) (filter (\<lambda>r. r \<noteq> []) lines))"

section \<open>The Orchestrator: \<^verbatim>\<open>main\<close>\<close>

text \<open>\<^verbatim>\<open>str.strip()\<close>: the code points below 256 for which \<^verbatim>\<open>str.isspace()\<close> holds.\<close>

definition is_space :: "char \<Rightarrow> bool" where
  "is_space c =
     (c \<in> set [CHR 0x09, CHR 0x0A, CHR 0x0B, CHR 0x0C, CHR 0x0D, CHR 0x1C, CHR 0x1D,
                CHR 0x1E, CHR 0x1F, CHR 0x20, CHR 0x85, CHR 0xA0])"

definition strip :: "string \<Rightarrow> string" where
  "strip s = rev (dropWhile is_space (rev (dropWhile is_space s)))"

text \<open>Lines 140-141: \<^verbatim>\<open>if not output_filename.endswith('.txt'): output_filename += '.txt'\<close>\<close>

definition add_txt :: "string \<Rightarrow> string" where
  "add_txt output_filename =
     (if suffix ''.txt'' output_filename then output_filename
      else output_filename @ ''.txt'')"

text \<open>
  \<^verbatim>\<open>d[k] = v\<close> on a dictionary kept as the list of its items in insertion order: a
  key that is there keeps its place.
\<close>

fun dict_set :: "(string \<times> pyval) list \<Rightarrow> string \<Rightarrow> pyval \<Rightarrow> (string \<times> pyval) list" where
  "dict_set [] k v = [(k, v)]"
| "dict_set ((k', v') # d) k v =
     (if k' = k then (k, v) # d else (k', v') # dict_set d k v)"

text \<open>Line 144: \<^verbatim>\<open>variables = {col: row[col] for col in variable_columns}\<close>\<close>

fun build_variables ::
  "(string \<times> pyval) list \<Rightarrow> string list \<Rightarrow> row \<Rightarrow> py_error + (string \<times> pyval) list" where
  "build_variables d [] r = Inr d"
| "build_variables d (col # cols) r =
     (case r col of
        None \<Rightarrow> Inl KeyError
      | Some v \<Rightarrow> build_variables (dict_set d col v) cols r)"

text \<open>
  What the run leaves behind: the files written, in order, and the messages printed.
  Only the messages the properties below speak of are kept; \<open>Completed n\<close> is the
  final line \<^verbatim>\<open>Completed! Generated n file(s).\<close>
\<close>

datatype event =
    UsageMsg
  | ReadFailed
  | EmptyInputMsg
  | Warning nat
  | Created string
  | WriteFailed string
  | Completed nat

record state =
  files :: "(string \<times> string) list"
  log :: "event list"

text \<open>
  \<^verbatim>\<open>write_output\<close> catches every exception of the write and prints it. Whether a
  write succeeds is a matter of the file system: \<open>can_write\<close> decides it from the
  files written so far and the path.
\<close>

definition write_output ::
  "((string \<times> string) list \<Rightarrow> string \<Rightarrow> bool) \<Rightarrow> string \<Rightarrow> string \<Rightarrow> state \<Rightarrow> state" where
  "write_output can_write output_path content st =
     (if can_write (files st) output_path
      then st\<lparr>files := files st @ [(output_path, content)],
              log := log st @ [Created output_path]\<rparr>
      else st\<lparr>log := log st @ [WriteFailed output_path]\<rparr>)"

text \<open>
  The loop of lines 132-150. An exception that nothing catches ends the loop; the
  result keeps it together with the state reached.
\<close>

fun process_rows ::
  "((string \<times> string) list \<Rightarrow> string \<Rightarrow> bool) \<Rightarrow> string \<Rightarrow> string \<Rightarrow> string list \<Rightarrow>
   nat \<Rightarrow> row list \<Rightarrow> state \<Rightarrow> py_error option \<times> state" where
  "process_rows can_write template filename_column variable_columns idx [] st = (None, st)"
| "process_rows can_write template filename_column variable_columns idx (r # rows) st =
     (case r filename_column of
        None \<Rightarrow> (Some KeyError, st)
      | Some PyNone \<Rightarrow> (Some AttributeError, st)
      | Some (Str s) \<Rightarrow>
          (let output_filename = strip s in
           if output_filename = []
           then process_rows can_write template filename_column variable_columns (Suc idx) rows
                  (st\<lparr>log := log st @ [Warning idx]\<rparr>)
           else (case build_variables [] variable_columns r of
                   Inl e \<Rightarrow> (Some e, st)
                 | Inr variables \<Rightarrow>
                     (case replace_variables template variables of
                        Inl e \<Rightarrow> (Some e, st)
                      | Inr output_content \<Rightarrow>
                          process_rows can_write template filename_column variable_columns
                            (Suc idx) rows
                            (write_output can_write (add_txt output_filename)
                               output_content st)))))"

datatype 'a file_result = NotFound | ReadError | Content 'a

record env =
  read_text :: "string \<Rightarrow> string file_result"
  read_table :: "string \<Rightarrow> string list list file_result"
  can_write :: "(string \<times> string) list \<Rightarrow> string \<Rightarrow> bool"

datatype status = Exit nat | Uncaught py_error

record outcome =
  status :: status
  written :: "(string \<times> string) list"
  printed :: "event list"

definition fatal :: "event \<Rightarrow> outcome" where
  "fatal msg = \<lparr>status = Exit 1, written = [], printed = [msg]\<rparr>"

definition main :: "env \<Rightarrow> string list \<Rightarrow> outcome" where
  "main e argv =
     (if length argv \<noteq> 3 then fatal UsageMsg
      else (case read_text e (argv ! 1) of
              NotFound \<Rightarrow> fatal ReadFailed
            | ReadError \<Rightarrow> fatal ReadFailed
            | Content template \<Rightarrow>
                (case read_table e (argv ! 2) of
                   NotFound \<Rightarrow> fatal ReadFailed
                 | ReadError \<Rightarrow> fatal ReadFailed
                 | Content lines \<Rightarrow>
                     (case read_csv lines of
                        (None, rows) \<Rightarrow> fatal EmptyInputMsg
                      | (Some headers, rows) \<Rightarrow>
                          if headers = [] \<or> rows = [] then fatal EmptyInputMsg
                          else (case process_rows (can_write e) template (hd headers)
                                       (tl headers) 1 rows \<lparr>files = [], log = []\<rparr> of
                                  (Some ex, st) \<Rightarrow>
                                    \<lparr>status = Uncaught ex, written = files st,
                                     printed = log st\<rparr>
                                | (None, st) \<Rightarrow>
                                    \<lparr>status = Exit 0, written = files st,
                                     printed = log st @ [Completed (length rows)]\<rparr>)))))"

section \<open>Notions used to state the properties\<close>

text \<open>
  A run of \<^verbatim>\<open>main\<close> in a file system where both input files are readable and
  every write succeeds.
\<close>

definition env_of :: "string \<Rightarrow> string list list \<Rightarrow> env" where
  "env_of template lines =
     \<lparr>read_text = (\<lambda>p. Content template), read_table = (\<lambda>p. Content lines),
      can_write = (\<lambda>fs p. True)\<rparr>"



text \<open>A text without the three characters placeholders are made of.\<close>

definition plain :: "string \<Rightarrow> bool" where
  "plain s = list_all (\<lambda>c. c \<noteq> CHR ''$'' \<and> c \<noteq> CHR ''{'' \<and> c \<noteq> CHR ''}'') s"

definition no_bslash :: "string \<Rightarrow> bool" where
  "no_bslash s = list_all (\<lambda>c. c \<noteq> bslash) s"

text \<open>
  No match of \<open>pat\<close> starts inside \<open>w\<close>, whatever follows \<open>w\<close>; no match of
  \<open>pat\<close> that starts before \<open>w\<close> reaches into it.
\<close>

definition no_start :: "string \<Rightarrow> string \<Rightarrow> bool" where
  "no_start pat w = (\<forall>m1 m2 y. w = m1 @ m2 \<and> m2 \<noteq> [] \<longrightarrow> \<not> prefix pat (m2 @ y))"

definition no_suffix_match :: "string \<Rightarrow> string \<Rightarrow> bool" where
  "no_suffix_match p w = (\<forall>p1 p2 y. p = p1 @ p2 \<and> p2 \<noteq> [] \<longrightarrow> \<not> prefix p2 (w @ y))"

definition no_straddle :: "string \<Rightarrow> string \<Rightarrow> bool" where
  "no_straddle pat w =
     (\<forall>p1 p2 y. pat = p1 @ p2 \<and> p1 \<noteq> [] \<and> p2 \<noteq> [] \<longrightarrow> \<not> prefix p2 (w @ y))"

text \<open>
  The results for the text before and behind a block \<open>m\<close>, put together around
  \<open>m\<close>; an exception of either side is the exception of the whole.
\<close>

fun glue :: "py_error + string \<Rightarrow> string \<Rightarrow> py_error + string \<Rightarrow> py_error + string" where
  "glue (Inl e) m r = Inl e"
| "glue (Inr a) m (Inl e) = Inl e"
| "glue (Inr a) m (Inr b) = Inr (a @ m @ b)"

text \<open>
  \<open>m\<close> is a placeholder, in either syntax, whose name is plain and is not a key of
  the mapping.
\<close>

definition unknown_block :: "(string \<times> pyval) list \<Rightarrow> string \<Rightarrow> bool" where
  "unknown_block vars m =
     (\<exists>u. plain u \<and> u \<notin> fst ` set vars \<and> (m = ph_dollar u \<or> m = ph_brace u))"

text \<open>
  A template seen as a sequence of pieces: literal text, \<^verbatim>\<open>${NAME}\<close> and
  \<^verbatim>\<open>{{NAME}}\<close>. It is flat when neither the literal text nor the names contain
  \<^verbatim>\<open>$\<close>, \<^verbatim>\<open>{\<close> or \<^verbatim>\<open>}\<close>.
\<close>

datatype piece = Lit string | Dollar string | Brace string

fun render_piece :: "piece \<Rightarrow> string" where
  "render_piece (Lit s) = s"
| "render_piece (Dollar name) = ph_dollar name"
| "render_piece (Brace name) = ph_brace name"

definition render :: "piece list \<Rightarrow> string" where
  "render ps = concat (map render_piece ps)"

fun piece_text :: "piece \<Rightarrow> string" where
  "piece_text (Lit s) = s"
| "piece_text (Dollar name) = name"
| "piece_text (Brace name) = name"

definition flat :: "piece list \<Rightarrow> bool" where
  "flat ps = list_all (\<lambda>p. plain (piece_text p)) ps"

text \<open>
  What one step does to a piece (\<open>subst_dollar\<close>, \<open>subst_brace\<close>), what a whole
  pass does (\<open>subst_dollars\<close>, \<open>subst_braces\<close>), and the simultaneous
  substitution of both syntaxes (\<open>subst_piece\<close>): a placeholder whose name is a key
  becomes the value as literal text, any other piece stays.
\<close>

definition subst_dollar :: "string \<Rightarrow> string \<Rightarrow> piece \<Rightarrow> piece" where
  "subst_dollar k v p = (if p = Dollar k then Lit v else p)"

definition subst_brace :: "string \<Rightarrow> string \<Rightarrow> piece \<Rightarrow> piece" where
  "subst_brace k v p = (if p = Brace k then Lit v else p)"

fun subst_dollars :: "(string \<times> pyval) list \<Rightarrow> piece \<Rightarrow> piece" where
  "subst_dollars vars (Dollar name) =
     (case map_of vars name of None \<Rightarrow> Dollar name | Some v \<Rightarrow> Lit (str_of v))"
| "subst_dollars vars p = p"

fun subst_braces :: "(string \<times> pyval) list \<Rightarrow> piece \<Rightarrow> piece" where
  "subst_braces vars (Brace name) =
     (case map_of vars name of None \<Rightarrow> Brace name | Some v \<Rightarrow> Lit (str_of v))"
| "subst_braces vars p = p"

fun subst_piece :: "(string \<times> pyval) list \<Rightarrow> piece \<Rightarrow> piece" where
  "subst_piece vars (Lit s) = Lit s"
| "subst_piece vars (Dollar name) =
     (case map_of vars name of None \<Rightarrow> Dollar name | Some v \<Rightarrow> Lit (str_of v))"
| "subst_piece vars (Brace name) =
     (case map_of vars name of None \<Rightarrow> Brace name | Some v \<Rightarrow> Lit (str_of v))"

text \<open>
  A mapping whose names and values are plain and whose values have no backslash.
\<close>

definition plain_vars :: "(string \<times> pyval) list \<Rightarrow> bool" where
  "plain_vars vars =
     list_all (\<lambda>kv. plain (fst kv) \<and> plain (str_of (snd kv)) \<and> no_bslash (str_of (snd kv))) vars"

text \<open>
  The two loops of \<^verbatim>\<open>replace_variables\<close> in the opposite order. This function is
  not in the program: it is what the program is compared with.
\<close>

definition replace_variables_braces_first ::
  "string \<Rightarrow> (string \<times> pyval) list \<Rightarrow> py_error + string" where
  "replace_variables_braces_first template variables =
     (case brace_pass variables template of
        Inl e \<Rightarrow> Inl e
      | Inr result \<Rightarrow> dollar_pass variables result)"

section \<open>How the scan of \<^verbatim>\<open>re.sub\<close> treats a block of text\<close>

lemma tokenize_no_bslash: "no_bslash s \<Longrightarrow> tokenize s = Inr (map Ch s)"
  by (induction s rule: tokenize.induct) (auto simp: no_bslash_def)

lemma parse_tokens_Ch: "parse_tokens (map Ch s) = Inr (map (\<lambda>c. TLit [c]) s)"
  by (induction s) auto

lemma expand_TLit: "expand (map (\<lambda>c. TLit [c]) s) m = s"
  by (induction s) (auto simp: expand_def)

lemma re_sub_no_bslash: "no_bslash v \<Longrightarrow> re_sub lit v s = Inr (replace_all lit v s)"
  by (simp add: re_sub_def parse_template_def tokenize_no_bslash parse_tokens_Ch expand_TLit)

lemma replace_all_match: "pat \<noteq> [] \<Longrightarrow> replace_all pat rep (pat @ y) = rep @ replace_all pat rep y"
  by (cases pat) auto

lemma no_start_tl: "no_start pat (c # w) \<Longrightarrow> no_start pat w"
  unfolding no_start_def
proof (intro allI impI)
  fix m1 m2 y
  assume a: "\<forall>m1 m2 y. c # w = m1 @ m2 \<and> m2 \<noteq> [] \<longrightarrow> \<not> prefix pat (m2 @ y)"
    and b: "w = m1 @ m2 \<and> m2 \<noteq> []"
  from b have "c # w = (c # m1) @ m2 \<and> m2 \<noteq> []" by simp
  with a show "\<not> prefix pat (m2 @ y)" by blast
qed

lemma no_start_hd: "no_start pat (c # w) \<Longrightarrow> \<not> prefix pat (c # w @ y)"
  unfolding no_start_def
proof -
  assume a: "\<forall>m1 m2 y. c # w = m1 @ m2 \<and> m2 \<noteq> [] \<longrightarrow> \<not> prefix pat (m2 @ y)"
  have "c # w = [] @ (c # w) \<and> c # w \<noteq> []" by simp
  with a have "\<not> prefix pat ((c # w) @ y)" by blast
  then show ?thesis by simp
qed

lemma replace_all_skip:
  "no_start pat w \<Longrightarrow> replace_all pat rep (w @ y) = w @ replace_all pat rep y"
proof (induction w)
  case Nil
  then show ?case by simp
next
  case (Cons c w)
  from Cons.prems have "\<not> prefix pat (c # w @ y)" by (rule no_start_hd)
  moreover from Cons.prems have "no_start pat w" by (rule no_start_tl)
  ultimately show ?case using Cons.IH by simp
qed

lemma no_start_head_absent:
  assumes "c \<notin> set w"
  shows "no_start (c # p) w"
  unfolding no_start_def
proof (intro allI impI notI)
  fix m1 m2 y
  assume a: "w = m1 @ m2 \<and> m2 \<noteq> []" and b: "prefix (c # p) (m2 @ y)"
  from a obtain d r where m2: "m2 = d # r" by (cases m2) auto
  with b have "d = c" by simp
  with a m2 assms show False by simp
qed

lemma plain_prefix_close:
  "plain a \<Longrightarrow> plain b \<Longrightarrow> prefix (a @ CHR ''}'' # x) (b @ CHR ''}'' # y) \<Longrightarrow> a = b"
proof (induction a arbitrary: b)
  case Nil
  then show ?case by (cases b) (auto simp: plain_def)
next
  case (Cons c a)
  then show ?case by (cases b) (auto simp: plain_def)
qed


lemma no_start_Cons:
  assumes "\<And>y. \<not> prefix pat (c # w @ y)" and "no_start pat w"
  shows "no_start pat (c # w)"
  unfolding no_start_def
proof (intro allI impI)
  fix m1 m2 y
  assume a: "c # w = m1 @ m2 \<and> m2 \<noteq> []"
  show "\<not> prefix pat (m2 @ y)"
  proof (cases m1)
    case Nil
    with a have "m2 = c # w" by simp
    with assms(1) [of y] show ?thesis by simp
  next
    case (Cons d m1')
    with a have "w = m1' @ m2 \<and> m2 \<noteq> []" by simp
    with assms(2) show ?thesis unfolding no_start_def by blast
  qed
qed

lemma no_straddle_Cons: "no_suffix_match p w \<Longrightarrow> no_straddle (a # p) w"
  unfolding no_straddle_def no_suffix_match_def
proof (intro allI impI)
  fix p1 p2 y
  assume h: "\<forall>p1 p2 y. p = p1 @ p2 \<and> p2 \<noteq> [] \<longrightarrow> \<not> prefix p2 (w @ y)"
    and s: "a # p = p1 @ p2 \<and> p1 \<noteq> [] \<and> p2 \<noteq> []"
  then obtain p1' where "p1 = a # p1'" "p = p1' @ p2" by (cases p1) auto
  with h s show "\<not> prefix p2 (w @ y)" by blast
qed

lemma no_suffix_match_Cons:
  assumes "\<And>y. \<not> prefix (c # p) (w @ y)" and "no_suffix_match p w"
  shows "no_suffix_match (c # p) w"
  unfolding no_suffix_match_def
proof (intro allI impI)
  fix p1 p2 y
  assume a: "c # p = p1 @ p2 \<and> p2 \<noteq> []"
  show "\<not> prefix p2 (w @ y)"
  proof (cases p1)
    case Nil
    with a have "p2 = c # p" by simp
    with assms(1) [of y] show ?thesis by simp
  next
    case (Cons d p1')
    with a have "p = p1' @ p2 \<and> p2 \<noteq> []" by simp
    with assms(2) show ?thesis unfolding no_suffix_match_def by blast
  qed
qed

lemma no_suffix_match_head_absent:
  assumes "c \<notin> set p"
  shows "no_suffix_match p (c # w)"
  unfolding no_suffix_match_def
proof (intro allI impI notI)
  fix p1 p2 y
  assume a: "p = p1 @ p2 \<and> p2 \<noteq> []" and b: "prefix p2 ((c # w) @ y)"
  from a obtain d r where p2: "p2 = d # r" by (cases p2) auto
  with b have "d = c" by simp
  with a p2 assms show False by simp
qed

lemma plain_not_open: "plain k \<Longrightarrow> \<not> prefix (CHR ''{'' # x) (k @ CHR ''}'' # y)"
  by (cases k) (auto simp: plain_def)

lemma plain_set: "plain k \<Longrightarrow> CHR ''$'' \<notin> set k \<and> CHR ''{'' \<notin> set k \<and> CHR ''}'' \<notin> set k"
  by (auto simp: plain_def list_all_iff)

lemma no_start_dollar_dollar:
  assumes "plain k" "plain u" "k \<noteq> u"
  shows "no_start (ph_dollar k) (ph_dollar u)"
proof -
  have 0: "\<And>y. \<not> prefix (ph_dollar k) (CHR ''$'' # (CHR ''{'' # u @ ''}'') @ y)"
    using assms plain_prefix_close [of k u] by (auto simp: ph_dollar_def)
  have "CHR ''$'' \<notin> set (CHR ''{'' # u @ ''}'')" using plain_set [OF assms(2)] by simp
  then have "no_start (CHR ''$'' # CHR ''{'' # k @ ''}'') (CHR ''{'' # u @ ''}'')"
    by (rule no_start_head_absent)
  then have "no_start (ph_dollar k) (CHR ''{'' # u @ ''}'')" by (simp add: ph_dollar_def)
  with 0 have "no_start (ph_dollar k) (CHR ''$'' # (CHR ''{'' # u @ ''}''))"
    by (rule no_start_Cons)
  then show ?thesis by (simp add: ph_dollar_def)
qed

lemma no_start_dollar_brace:
  assumes "plain u"
  shows "no_start (ph_dollar k) (ph_brace u)"
proof -
  have "CHR ''$'' \<notin> set (ph_brace u)" using plain_set [OF assms] by (simp add: ph_brace_def)
  then have "no_start (CHR ''$'' # CHR ''{'' # k @ ''}'') (ph_brace u)"
    by (rule no_start_head_absent)
  then show ?thesis by (simp add: ph_dollar_def)
qed

lemma no_start_brace_tail:
  assumes "plain u" and "CHR ''{'' \<notin> set z"
  shows "no_start (ph_brace k) (CHR ''{'' # u @ CHR ''}'' # z)"
proof -
  have 1: "\<And>y. \<not> prefix (ph_brace k) (CHR ''{'' # (u @ CHR ''}'' # z) @ y)"
    using plain_not_open [OF assms(1)] by (simp add: ph_brace_def)
  have "CHR ''{'' \<notin> set (u @ CHR ''}'' # z)"
    using plain_set [OF assms(1)] assms(2) by simp
  then have "no_start (CHR ''{'' # CHR ''{'' # k @ ''}}'') (u @ CHR ''}'' # z)"
    by (rule no_start_head_absent)
  then have "no_start (ph_brace k) (u @ CHR ''}'' # z)" by (simp add: ph_brace_def)
  with 1 show ?thesis by (rule no_start_Cons)
qed

lemma no_start_brace_dollar:
  assumes "plain u"
  shows "no_start (ph_brace k) (ph_dollar u)"
proof -
  have 0: "\<And>y. \<not> prefix (ph_brace k) (CHR ''$'' # (CHR ''{'' # u @ CHR ''}'' # []) @ y)"
    by (simp add: ph_brace_def)
  have "no_start (ph_brace k) (CHR ''{'' # u @ CHR ''}'' # [])"
    using assms by (rule no_start_brace_tail) simp
  with 0 have "no_start (ph_brace k) (CHR ''$'' # (CHR ''{'' # u @ CHR ''}'' # []))"
    by (rule no_start_Cons)
  then show ?thesis by (simp add: ph_dollar_def)
qed

lemma no_start_brace_brace:
  assumes "plain k" "plain u" "k \<noteq> u"
  shows "no_start (ph_brace k) (ph_brace u)"
proof -
  have 0: "\<And>y. \<not> prefix (ph_brace k) (CHR ''{'' # (CHR ''{'' # u @ CHR ''}'' # ''}'') @ y)"
    using assms plain_prefix_close [of k u] by (auto simp: ph_brace_def)
  have "no_start (ph_brace k) (CHR ''{'' # u @ CHR ''}'' # ''}'')"
    using assms(2) by (rule no_start_brace_tail) simp
  with 0 have "no_start (ph_brace k) (CHR ''{'' # (CHR ''{'' # u @ CHR ''}'' # ''}''))"
    by (rule no_start_Cons)
  then show ?thesis by (simp add: ph_brace_def)
qed

lemma no_straddle_dollar:
  assumes "plain k"
  shows "no_straddle (ph_dollar k) (ph_dollar u)" and "no_straddle (ph_brace k) (ph_dollar u)"
proof -
  have "CHR ''$'' \<notin> set (CHR ''{'' # k @ ''}'')" using plain_set [OF assms] by simp
  then have "no_suffix_match (CHR ''{'' # k @ ''}'') (CHR ''$'' # CHR ''{'' # u @ ''}'')"
    by (rule no_suffix_match_head_absent)
  then have "no_straddle (CHR ''$'' # CHR ''{'' # k @ ''}'') (CHR ''$'' # CHR ''{'' # u @ ''}'')"
    by (rule no_straddle_Cons)
  then show "no_straddle (ph_dollar k) (ph_dollar u)" by (simp add: ph_dollar_def)
  have "CHR ''$'' \<notin> set (CHR ''{'' # k @ ''}}'')" using plain_set [OF assms] by simp
  then have "no_suffix_match (CHR ''{'' # k @ ''}}'') (CHR ''$'' # CHR ''{'' # u @ ''}'')"
    by (rule no_suffix_match_head_absent)
  then have "no_straddle (CHR ''{'' # CHR ''{'' # k @ ''}}'') (CHR ''$'' # CHR ''{'' # u @ ''}'')"
    by (rule no_straddle_Cons)
  then show "no_straddle (ph_brace k) (ph_dollar u)" by (simp add: ph_dollar_def ph_brace_def)
qed

lemma no_suffix_match_open:
  assumes "plain k" and "CHR ''{'' \<notin> set z"
  shows "no_suffix_match (CHR ''{'' # k @ CHR ''}'' # z) (CHR ''{'' # CHR ''{'' # w)"
proof -
  have 0: "\<And>y. \<not> prefix (CHR ''{'' # k @ CHR ''}'' # z) ((CHR ''{'' # CHR ''{'' # w) @ y)"
    using assms(1) by (cases k) (auto simp: plain_def)
  have "CHR ''{'' \<notin> set (k @ CHR ''}'' # z)" using plain_set [OF assms(1)] assms(2) by simp
  then have "no_suffix_match (k @ CHR ''}'' # z) (CHR ''{'' # CHR ''{'' # w)"
    by (rule no_suffix_match_head_absent)
  with 0 show ?thesis by (rule no_suffix_match_Cons)
qed

lemma no_straddle_brace:
  assumes "plain k"
  shows "no_straddle (ph_dollar k) (ph_brace u)" and "no_straddle (ph_brace k) (ph_brace u)"
proof -
  have "no_suffix_match (CHR ''{'' # k @ CHR ''}'' # []) (CHR ''{'' # CHR ''{'' # u @ ''}}'')"
    using assms by (rule no_suffix_match_open) simp
  then have "no_straddle (CHR ''$'' # CHR ''{'' # k @ CHR ''}'' # []) (CHR ''{'' # CHR ''{'' # u @ ''}}'')"
    by (rule no_straddle_Cons)
  then show "no_straddle (ph_dollar k) (ph_brace u)" by (simp add: ph_dollar_def ph_brace_def)
  have "no_suffix_match (CHR ''{'' # k @ CHR ''}'' # ''}'') (CHR ''{'' # CHR ''{'' # u @ ''}}'')"
    using assms by (rule no_suffix_match_open) simp
  then have "no_straddle (CHR ''{'' # CHR ''{'' # k @ CHR ''}'' # ''}'') (CHR ''{'' # CHR ''{'' # u @ ''}}'')"
    by (rule no_straddle_Cons)
  then show "no_straddle (ph_brace k) (ph_brace u)" by (simp add: ph_brace_def)
qed

lemma replace_all_barrier:
  "no_start pat m \<Longrightarrow> no_straddle pat m \<Longrightarrow>
   replace_all pat rep (a @ m @ b) = replace_all pat rep a @ m @ replace_all pat rep b"
proof (induction pat rep a rule: replace_all.induct)
  case (1 pat rep)
  from replace_all_skip [OF "1.prems"(1)] show ?case by simp
next
  case (2 pat rep c cs)
  show ?case
  proof (cases "pat \<noteq> [] \<and> prefix pat (c # cs)")
    case True
    then have len: "length pat - 1 \<le> length cs"
      using prefix_length_le [of pat "c # cs"] by simp
    from True have "prefix pat (c # cs @ m @ b)"
      using prefix_prefix [of pat "c # cs" "m @ b"] by simp
    with True have l: "replace_all pat rep (c # cs @ m @ b)
        = rep @ replace_all pat rep (drop (length pat - 1) (cs @ m @ b))"
      by simp
    from len have d: "drop (length pat - 1) (cs @ m @ b) = drop (length pat - 1) cs @ m @ b"
      by simp
    from True have r: "replace_all pat rep (c # cs)
        = rep @ replace_all pat rep (drop (length pat - 1) cs)"
      by simp
    from "2.IH"(1) [OF True "2.prems"] show ?thesis
      by (simp only: l r d append_assoc append_Cons)
  next
    case False
    have "\<not> (pat \<noteq> [] \<and> prefix pat (c # cs @ m @ b))"
    proof
      assume h: "pat \<noteq> [] \<and> prefix pat (c # cs @ m @ b)"
      then have "prefix pat ((c # cs) @ (m @ b))" by simp
      then have "prefix pat (c # cs) \<or> (\<exists>us. pat = (c # cs) @ us \<and> prefix us (m @ b))"
        by (simp only: prefix_append)
      with False h obtain us where us: "pat = (c # cs) @ us" "prefix us (m @ b)" by blast
      with False h have "us \<noteq> []" by auto
      with us "2.prems"(2) show False unfolding no_straddle_def by blast
    qed
    then have l: "replace_all pat rep (c # cs @ m @ b) = c # replace_all pat rep (cs @ m @ b)"
      by auto
    from False have r: "replace_all pat rep (c # cs) = c # replace_all pat rep cs"
      by auto
    from "2.IH"(2) [OF False "2.prems"] show ?thesis
      by (simp only: l r append_Cons)
  qed
qed

lemma re_sub_barrier:
  "no_start pat m \<Longrightarrow> no_straddle pat m \<Longrightarrow>
   re_sub pat v (a @ m @ b) = glue (re_sub pat v a) m (re_sub pat v b)"
  by (simp add: re_sub_def replace_all_barrier split: sum.splits)

lemma unknown_block_Cons: "unknown_block (kv # vars) m \<Longrightarrow> unknown_block vars m"
  by (auto simp: unknown_block_def)

lemma unknown_block_keeps:
  assumes "unknown_block ((k, v) # vars) m" and "plain k"
  shows "no_start (ph_dollar k) m" "no_straddle (ph_dollar k) m"
    "no_start (ph_brace k) m" "no_straddle (ph_brace k) m"
proof -
  from assms(1) obtain u where u: "plain u" "u \<noteq> k" "m = ph_dollar u \<or> m = ph_brace u"
    by (auto simp: unknown_block_def)
  from u assms(2) show "no_start (ph_dollar k) m"
    using no_start_dollar_dollar [of k u] no_start_dollar_brace [of u k] by auto
  from u assms(2) show "no_straddle (ph_dollar k) m"
    using no_straddle_dollar(1) [of k u] no_straddle_brace(1) [of k u] by auto
  from u assms(2) show "no_start (ph_brace k) m"
    using no_start_brace_dollar [of u k] no_start_brace_brace [of k u] by auto
  from u assms(2) show "no_straddle (ph_brace k) m"
    using no_straddle_dollar(2) [of k u] no_straddle_brace(2) [of k u] by auto
qed

lemma dollar_pass_barrier:
  "unknown_block vars m \<Longrightarrow> list_all (\<lambda>kv. plain (fst kv)) vars \<Longrightarrow>
   dollar_pass vars (a @ m @ b) = glue (dollar_pass vars a) m (dollar_pass vars b)"
proof (induction vars arbitrary: a b)
  case Nil
  then show ?case by simp
next
  case (Cons kv vars)
  obtain k v where kv: "kv = (k, v)" by (cases kv)
  from Cons.prems kv have pk: "plain k" by simp
  from Cons.prems(1) have ub: "unknown_block vars m" by (rule unknown_block_Cons)
  from Cons.prems(2) have pl: "list_all (\<lambda>kv. plain (fst kv)) vars" by simp
  have step: "re_sub (ph_dollar k) (str_of v) (a @ m @ b)
      = glue (re_sub (ph_dollar k) (str_of v) a) m (re_sub (ph_dollar k) (str_of v) b)"
    using unknown_block_keeps(1,2) [OF Cons.prems(1) [unfolded kv] pk] by (rule re_sub_barrier)
  show ?case
  proof (cases "parse_template (str_of v)")
    case (Inl e)
    then show ?thesis by (simp add: kv re_sub_def)
  next
    case (Inr parts)
    then show ?thesis using Cons.IH [OF ub pl] replace_all_barrier [OF unknown_block_keeps(1,2) [OF Cons.prems(1) [unfolded kv] pk]]
      by (simp add: kv re_sub_def)
  qed
qed

lemma brace_pass_barrier:
  "unknown_block vars m \<Longrightarrow> list_all (\<lambda>kv. plain (fst kv)) vars \<Longrightarrow>
   brace_pass vars (a @ m @ b) = glue (brace_pass vars a) m (brace_pass vars b)"
proof (induction vars arbitrary: a b)
  case Nil
  then show ?case by simp
next
  case (Cons kv vars)
  obtain k v where kv: "kv = (k, v)" by (cases kv)
  from Cons.prems kv have pk: "plain k" by simp
  from Cons.prems(1) have ub: "unknown_block vars m" by (rule unknown_block_Cons)
  from Cons.prems(2) have pl: "list_all (\<lambda>kv. plain (fst kv)) vars" by simp
  show ?case
  proof (cases "parse_template (str_of v)")
    case (Inl e)
    then show ?thesis by (simp add: kv re_sub_def)
  next
    case (Inr parts)
    then show ?thesis using Cons.IH [OF ub pl] replace_all_barrier [OF unknown_block_keeps(3,4) [OF Cons.prems(1) [unfolded kv] pk]]
      by (simp add: kv re_sub_def)
  qed
qed

lemma dollar_pass_error_indep: "dollar_pass vars a = Inl e \<Longrightarrow> dollar_pass vars b = Inl e"
  by (induction vars arbitrary: a b) (auto simp: re_sub_def split: sum.splits)

lemma replace_variables_barrier:
  assumes "unknown_block vars m" and "list_all (\<lambda>kv. plain (fst kv)) vars"
  shows "replace_variables (a @ m @ b) vars
         = glue (replace_variables a vars) m (replace_variables b vars)"
proof -
  note d = dollar_pass_barrier [OF assms, of a b]
  show ?thesis
  proof (cases "dollar_pass vars a")
    case (Inl e)
    with d show ?thesis by (simp add: replace_variables_def)
  next
    case a': (Inr a')
    show ?thesis
    proof (cases "dollar_pass vars b")
      case (Inl e)
      from dollar_pass_error_indep [OF Inl, of a] a' show ?thesis by simp
    next
      case (Inr b')
      with a' d brace_pass_barrier [OF assms, of a' b'] show ?thesis
        by (simp add: replace_variables_def)
    qed
  qed
qed

section \<open>Flat templates\<close>

lemma render_Cons: "render (p # ps) = render_piece p @ render ps"
  by (simp add: render_def)

lemma flat_Cons: "flat (p # ps) \<longleftrightarrow> plain (piece_text p) \<and> flat ps"
  by (simp add: flat_def)

lemma ph_nonempty: "ph_dollar k \<noteq> []" "ph_brace k \<noteq> []"
  by (simp_all add: ph_dollar_def ph_brace_def)

lemma no_start_dollar_plain: "plain w \<Longrightarrow> no_start (ph_dollar k) w"
  using no_start_head_absent [of "CHR ''$''" w "CHR ''{'' # k @ ''}''"] plain_set [of w]
  by (simp add: ph_dollar_def)

lemma no_start_brace_plain: "plain w \<Longrightarrow> no_start (ph_brace k) w"
  using no_start_head_absent [of "CHR ''{''" w "CHR ''{'' # k @ ''}}''"] plain_set [of w]
  by (simp add: ph_brace_def)

lemma dollar_step_piece:
  assumes "plain (piece_text p)" and "plain k"
  shows "replace_all (ph_dollar k) rep (render_piece p @ y)
         = render_piece (subst_dollar k rep p) @ replace_all (ph_dollar k) rep y"
proof (cases p)
  case (Lit w)
  with assms show ?thesis by (simp add: replace_all_skip no_start_dollar_plain subst_dollar_def)
next
  case (Dollar u)
  show ?thesis
  proof (cases "u = k")
    case True
    with Dollar show ?thesis using replace_all_match [OF ph_nonempty(1)]
      by (simp add: subst_dollar_def)
  next
    case False
    with Dollar assms have "no_start (ph_dollar k) (ph_dollar u)"
      by (simp add: no_start_dollar_dollar)
    with Dollar False show ?thesis by (simp add: replace_all_skip subst_dollar_def)
  qed
next
  case (Brace u)
  with assms have "no_start (ph_dollar k) (ph_brace u)" by (simp add: no_start_dollar_brace)
  with Brace show ?thesis by (simp add: replace_all_skip subst_dollar_def)
qed

lemma brace_step_piece:
  assumes "plain (piece_text p)" and "plain k"
  shows "replace_all (ph_brace k) rep (render_piece p @ y)
         = render_piece (subst_brace k rep p) @ replace_all (ph_brace k) rep y"
proof (cases p)
  case (Lit w)
  with assms show ?thesis by (simp add: replace_all_skip no_start_brace_plain subst_brace_def)
next
  case (Brace u)
  show ?thesis
  proof (cases "u = k")
    case True
    with Brace show ?thesis using replace_all_match [OF ph_nonempty(2)]
      by (simp add: subst_brace_def)
  next
    case False
    with Brace assms have "no_start (ph_brace k) (ph_brace u)"
      by (simp add: no_start_brace_brace)
    with Brace False show ?thesis by (simp add: replace_all_skip subst_brace_def)
  qed
next
  case (Dollar u)
  with assms have "no_start (ph_brace k) (ph_dollar u)" by (simp add: no_start_brace_dollar)
  with Dollar show ?thesis by (simp add: replace_all_skip subst_brace_def)
qed

lemma dollar_step_flat:
  "flat ps \<Longrightarrow> plain k \<Longrightarrow>
   replace_all (ph_dollar k) rep (render ps) = render (map (subst_dollar k rep) ps)"
proof (induction ps)
  case Nil
  then show ?case by (simp add: render_def)
next
  case (Cons p ps)
  then show ?case
    by (simp only: render_Cons flat_Cons dollar_step_piece list.map)
qed

lemma brace_step_flat:
  "flat ps \<Longrightarrow> plain k \<Longrightarrow>
   replace_all (ph_brace k) rep (render ps) = render (map (subst_brace k rep) ps)"
proof (induction ps)
  case Nil
  then show ?case by (simp add: render_def)
next
  case (Cons p ps)
  then show ?case
    by (simp only: render_Cons flat_Cons brace_step_piece list.map)
qed

lemma flat_subst_dollar: "flat ps \<Longrightarrow> plain v \<Longrightarrow> flat (map (subst_dollar k v) ps)"
  by (induction ps) (auto simp: flat_def subst_dollar_def)

lemma flat_subst_brace: "flat ps \<Longrightarrow> plain v \<Longrightarrow> flat (map (subst_brace k v) ps)"
  by (induction ps) (auto simp: flat_def subst_brace_def)

lemma subst_dollars_Cons:
  "subst_dollars vars (subst_dollar k (str_of v) p) = subst_dollars ((k, v) # vars) p"
  by (cases p) (auto simp: subst_dollar_def)

lemma subst_braces_Cons:
  "subst_braces vars (subst_brace k (str_of v) p) = subst_braces ((k, v) # vars) p"
  by (cases p) (auto simp: subst_brace_def)

lemma dollar_pass_flat:
  "flat ps \<Longrightarrow> plain_vars vars \<Longrightarrow>
   dollar_pass vars (render ps) = Inr (render (map (subst_dollars vars) ps))"
proof (induction vars arbitrary: ps)
  case Nil
  have "\<And>p. subst_dollars [] p = p" by (case_tac p) simp_all
  then have "map (subst_dollars []) ps = ps" by (simp add: map_idI)
  then show ?case by simp
next
  case (Cons kv vars)
  obtain k v where kv: "kv = (k, v)" by (cases kv)
  from Cons.prems(2) kv have pk: "plain k" and pv: "plain (str_of v)"
    and nb: "no_bslash (str_of v)" and rest: "plain_vars vars"
    by (simp_all add: plain_vars_def)
  have step: "re_sub (ph_dollar k) (str_of v) (render ps)
              = Inr (render (map (subst_dollar k (str_of v)) ps))"
    using Cons.prems(1) pk nb by (simp add: re_sub_no_bslash dollar_step_flat)
  from Cons.IH [OF flat_subst_dollar [OF Cons.prems(1) pv, of k] rest]
  show ?case by (simp add: kv step subst_dollars_Cons comp_def)
qed

lemma brace_pass_flat:
  "flat ps \<Longrightarrow> plain_vars vars \<Longrightarrow>
   brace_pass vars (render ps) = Inr (render (map (subst_braces vars) ps))"
proof (induction vars arbitrary: ps)
  case Nil
  have "\<And>p. subst_braces [] p = p" by (case_tac p) simp_all
  then have "map (subst_braces []) ps = ps" by (simp add: map_idI)
  then show ?case by simp
next
  case (Cons kv vars)
  obtain k v where kv: "kv = (k, v)" by (cases kv)
  from Cons.prems(2) kv have pk: "plain k" and pv: "plain (str_of v)"
    and nb: "no_bslash (str_of v)" and rest: "plain_vars vars"
    by (simp_all add: plain_vars_def)
  have step: "re_sub (ph_brace k) (str_of v) (render ps)
              = Inr (render (map (subst_brace k (str_of v)) ps))"
    using Cons.prems(1) pk nb by (simp add: re_sub_no_bslash brace_step_flat)
  from Cons.IH [OF flat_subst_brace [OF Cons.prems(1) pv, of k] rest]
  show ?case by (simp add: kv step subst_braces_Cons comp_def)
qed

lemma plain_vars_lookup: "plain_vars vars \<Longrightarrow> map_of vars k = Some v \<Longrightarrow> plain (str_of v)"
  by (induction vars) (auto simp: plain_vars_def split: if_splits)

lemma plain_subst_dollars:
  "plain_vars vars \<Longrightarrow> plain (piece_text p) \<Longrightarrow> plain (piece_text (subst_dollars vars p))"
  by (cases p) (auto split: option.splits dest: plain_vars_lookup)

lemma plain_subst_braces:
  "plain_vars vars \<Longrightarrow> plain (piece_text p) \<Longrightarrow> plain (piece_text (subst_braces vars p))"
  by (cases p) (auto split: option.splits dest: plain_vars_lookup)

lemma flat_subst_dollars: "flat ps \<Longrightarrow> plain_vars vars \<Longrightarrow> flat (map (subst_dollars vars) ps)"
  by (induction ps) (simp_all add: flat_def plain_subst_dollars)

lemma flat_subst_braces: "flat ps \<Longrightarrow> plain_vars vars \<Longrightarrow> flat (map (subst_braces vars) ps)"
  by (induction ps) (simp_all add: flat_def plain_subst_braces)

lemma subst_both: "subst_braces vars (subst_dollars vars p) = subst_piece vars p"
  "subst_dollars vars (subst_braces vars p) = subst_piece vars p"
  by (cases p; simp split: option.splits)+

lemma replace_variables_flat:
  assumes "flat ps" and "plain_vars vars"
  shows "replace_variables (render ps) vars = Inr (render (map (subst_piece vars) ps))"
  using dollar_pass_flat [OF assms] brace_pass_flat [OF flat_subst_dollars [OF assms] assms(2)]
  by (simp add: replace_variables_def subst_both comp_def)

lemma replace_variables_braces_first_flat:
  assumes "flat ps" and "plain_vars vars"
  shows "replace_variables_braces_first (render ps) vars = Inr (render (map (subst_piece vars) ps))"
  using brace_pass_flat [OF assms] dollar_pass_flat [OF flat_subst_braces [OF assms] assms(2)]
  by (simp add: replace_variables_braces_first_def subst_both comp_def)

section \<open>File names (C6) and the rows that are skipped (C7)\<close>

lemma strip_empty_iff: "strip s = [] \<longleftrightarrow> (\<forall>c\<in>set s. is_space c)"
proof
  assume "strip s = []"
  then have all: "\<forall>c\<in>set (dropWhile is_space s). is_space c"
    by (simp add: strip_def dropWhile_eq_Nil_conv)
  have "dropWhile is_space s = []"
  proof (rule ccontr)
    assume ne: "dropWhile is_space s \<noteq> []"
    then have "hd (dropWhile is_space s) \<in> set (dropWhile is_space s)" by simp
    with all hd_dropWhile [OF ne] show False by blast
  qed
  then show "\<forall>c\<in>set s. is_space c" by simp
next
  assume "\<forall>c\<in>set s. is_space c"
  then have "dropWhile is_space s = []" by simp
  then show "strip s = []" by (simp only: strip_def rev.simps dropWhile.simps)
qed

text \<open>
  C6. The extension is normalised: the derived name always ends in \<^verbatim>\<open>.txt\<close>,
  normalising twice is normalising once, a name that does not end in \<^verbatim>\<open>.txt\<close>
  gets it appended, a name that does is left as it is, and the result ends in
  \<^verbatim>\<open>.txt.txt\<close> only if the name did.
\<close>

theorem add_txt_normalizes:
  "suffix ''.txt'' (add_txt f) \<and> add_txt (add_txt f) = add_txt f
   \<and> (\<not> suffix ''.txt'' f \<longrightarrow> add_txt f = f @ ''.txt'')
   \<and> (suffix ''.txt'' f \<longrightarrow> add_txt f = f)
   \<and> (suffix ''.txt.txt'' (add_txt f) \<longrightarrow> suffix ''.txt.txt'' f)"
proof -
  have a: "suffix ''.txt'' (add_txt f)"
    by (simp add: add_txt_def suffix_appendI)
  have b: "suffix ''.txt.txt'' (f @ ''.txt'') \<Longrightarrow> suffix ''.txt'' f"
  proof -
    assume "suffix ''.txt.txt'' (f @ ''.txt'')"
    then have "suffix (''.txt'' @ ''.txt'') (f @ ''.txt'')" by simp
    then show ?thesis by (simp only: same_suffix_suffix)
  qed
  show ?thesis using a b by (auto simp: add_txt_def)
qed

theorem add_txt_normalizes_witness:
  "\<not> suffix ''.txt'' ''report'' \<and> add_txt ''report'' = ''report.txt''
   \<and> suffix ''.txt'' ''report.txt'' \<and> add_txt ''report.txt'' = ''report.txt''
   \<and> suffix ''.txt.txt'' (add_txt ''a.txt.txt'') \<and> suffix ''.txt.txt'' ''a.txt.txt''"
  using add_txt_normalizes [of "''report''"] add_txt_normalizes [of "''report.txt''"]
    add_txt_normalizes [of "''a.txt.txt''"]
  by (simp add: suffix_def add_txt_def)



section \<open>Empty input (C8)\<close>

text \<open>
  C8. With two arguments and both files readable, a table without a header line,
  with a header line without columns, or without data rows ends the run with exit
  status 1, no file written, and the one message that the input is empty.
\<close>

theorem empty_input_fatal:
  assumes "length argv = 3"
    and "read_text e (argv ! 1) = Content template"
    and "read_table e (argv ! 2) = Content lines"
    and "fst (read_csv lines) = None \<or> fst (read_csv lines) = Some [] \<or> snd (read_csv lines) = []"
  shows "status (main e argv) = Exit 1 \<and> written (main e argv) = []
         \<and> printed (main e argv) = [EmptyInputMsg]"
  using assms by (cases "read_csv lines") (auto simp: main_def fatal_def split: option.splits)

theorem empty_input_fatal_witness:
  "status (main (env_of ''x'' [ [''filename'', ''A''] ]) [''prog'', ''t'', ''c'']) = Exit 1
   \<and> written (main (env_of ''x'' [ [''filename'', ''A''] ]) [''prog'', ''t'', ''c'']) = []
   \<and> status (main (env_of ''x'' [ [], [''a''] ]) [''prog'', ''t'', ''c'']) = Exit 1
   \<and> status (main (env_of ''x'' []) [''prog'', ''t'', ''c'']) = Exit 1"
  using empty_input_fatal [of "[''prog'', ''t'', ''c'']" "env_of ''x'' [ [''filename'', ''A''] ]"
      "''x''" "[ [''filename'', ''A''] ]"]
    empty_input_fatal [of "[''prog'', ''t'', ''c'']" "env_of ''x'' [ [], [''a''] ]"
      "''x''" "[ [], [''a''] ]"]
    empty_input_fatal [of "[''prog'', ''t'', ''c'']" "env_of ''x'' []" "''x''" "[]"]
  by (simp add: env_of_def)

section \<open>The completion report (C5)\<close>

text \<open>
  C5. The count of the final line is \<^verbatim>\<open>len(rows)\<close>, not the number of files
  written: a table whose only row has a blank filename field writes no file, and the
  run still reports one generated file.
\<close>

theorem generated_count_counts_rows:
  "main (env_of ''x'' [ [''filename'', ''A''], [''   '', ''v''] ]) [''prog'', ''t'', ''c''] =
     \<lparr>status = Exit 0, written = [], printed = [Warning 1, Completed 1]\<rparr>"
  by (simp add: main_def env_of_def dict_row_def dict_of_def strip_def is_space_def)

section \<open>Values with backslashes (C1)\<close>

text \<open>
  C1. The value is handed to \<^verbatim>\<open>re.sub\<close> as a replacement template, so a
  backslash in it is not inserted as it is: in \<^verbatim>\<open>C:\new\<close> the two characters
  \<^verbatim>\<open>\n\<close> become a line feed, and \<^verbatim>\<open>C:\dir\<close> raises \<^verbatim>\<open>re.error\<close>
  (bad escape) instead of producing an output.
\<close>

theorem backslash_value_not_literal:
  "replace_variables ''${X}'' [(''X'', Str (''C:'' @ [bslash] @ ''new''))]
     = Inr (''C:'' @ [newline] @ ''ew'')
   \<and> replace_variables ''${X}'' [(''X'', Str (''C:'' @ [bslash] @ ''dir''))]
     = Inl BadReplacement"
  by (simp add: replace_variables_def re_sub_def parse_template_def expand_def ph_dollar_def
      ph_brace_def bslash_def newline_def escape_char_def is_digit_def is_ascii_letter_def)

section \<open>The engine raises only for a malformed value\<close>

lemma passes_total:
  "list_all (\<lambda>kv. no_bslash (str_of (snd kv))) vars \<Longrightarrow>
   (\<exists>out. dollar_pass vars t = Inr out) \<and> (\<exists>out. brace_pass vars t = Inr out)"
  by (induction vars arbitrary: t) (auto simp: re_sub_no_bslash)

lemma replace_variables_total:
  assumes "list_all (\<lambda>kv. no_bslash (str_of (snd kv))) vars"
  shows "\<exists>out. replace_variables t vars = Inr out"
proof -
  from passes_total [OF assms, of t] obtain r where r: "dollar_pass vars t = Inr r" by blast
  from passes_total [OF assms, of r] obtain out where "brace_pass vars r = Inr out" by blast
  with r show ?thesis by (simp add: replace_variables_def)
qed

section \<open>One step as split and join\<close>









section \<open>Re-scanning of inserted values (C2)\<close>




section \<open>The order of the two passes (C3)\<close>

text \<open>
  C3, as stated, fails: the value of \<^verbatim>\<open>A\<close> is \<^verbatim>\<open>{{B}}\<close>. With the
  \<^verbatim>\<open>${NAME}\<close> pass first it is inserted and then replaced by the second pass;
  with the \<^verbatim>\<open>{{NAME}}\<close> pass first it is inserted last and stays.
\<close>

theorem passes_do_not_commute_counterexample:
  "replace_variables ''${A}'' [(''A'', Str ''{{B}}''), (''B'', Str ''x'')]
   \<noteq> replace_variables_braces_first ''${A}'' [(''A'', Str ''{{B}}''), (''B'', Str ''x'')]"
  by (simp add: replace_variables_def replace_variables_braces_first_def re_sub_def
      parse_template_def expand_def ph_dollar_def ph_brace_def bslash_def)

text \<open>
  C3, amended. On a flat template, with names and values that are plain and values
  without backslash, the two orders agree: both give the simultaneous substitution.
\<close>

theorem passes_commute_on_flat_templates:
  assumes "flat ps" and "plain_vars vars"
  shows "replace_variables_braces_first (render ps) vars = replace_variables (render ps) vars
       \<and> replace_variables (render ps) vars = Inr (render (map (subst_piece vars) ps))"
  using replace_variables_flat [OF assms] replace_variables_braces_first_flat [OF assms]
  by simp

theorem passes_commute_on_flat_templates_witness:
  "flat [Lit ''Host: '', Dollar ''SERVER_IP'', Lit '', Port: '', Brace ''PORT'']
   \<and> plain_vars [(''SERVER_IP'', Str ''192.168.1.10''), (''PORT'', Str ''8080'')]
   \<and> replace_variables_braces_first ''Host: ${SERVER_IP}, Port: {{PORT}}''
        [(''SERVER_IP'', Str ''192.168.1.10''), (''PORT'', Str ''8080'')]
      = Inr ''Host: 192.168.1.10, Port: 8080''
   \<and> replace_variables ''Host: ${SERVER_IP}, Port: {{PORT}}''
        [(''SERVER_IP'', Str ''192.168.1.10''), (''PORT'', Str ''8080'')]
      = Inr ''Host: 192.168.1.10, Port: 8080''"
proof -
  have h: "flat [Lit ''Host: '', Dollar ''SERVER_IP'', Lit '', Port: '', Brace ''PORT'']"
    "plain_vars [(''SERVER_IP'', Str ''192.168.1.10''), (''PORT'', Str ''8080'')]"
    by (simp_all add: flat_def plain_def plain_vars_def no_bslash_def bslash_def)
  from passes_commute_on_flat_templates [OF h] h show ?thesis
    by (simp add: render_def ph_dollar_def ph_brace_def)
qed

section \<open>Placeholders of unknown names (C4)\<close>

text \<open>
  C4, as stated, fails for names that contain the characters of the placeholder
  syntax: the template \<^verbatim>\<open>${A}${B}\<close> is, as a whole, the placeholder of the
  column named \<^verbatim>\<open>A}${B\<close>, and neither \<^verbatim>\<open>${A}\<close> nor \<^verbatim>\<open>${B}\<close>, whose
  names are no keys, is left in the output.
\<close>

theorem unknown_placeholder_overlapped_counterexample:
  "''A'' \<notin> fst ` set [(''A}${B'', Str ''x'')] \<and> ''B'' \<notin> fst ` set [(''A}${B'', Str ''x'')]
   \<and> replace_variables (ph_dollar ''A'' @ ph_dollar ''B'') [(''A}${B'', Str ''x'')] = Inr ''x''
   \<and> \<not> sublist (ph_dollar ''A'') ''x'' \<and> \<not> sublist (ph_dollar ''B'') ''x''"
  by (simp add: replace_variables_def re_sub_def parse_template_def expand_def ph_dollar_def
      ph_brace_def bslash_def sublist_Cons_right)

text \<open>
  C4, amended. When the keys of the mapping are plain, a placeholder with a plain
  name that is not a key stays where it is, unchanged, between the results for the
  text before it and the text behind it; this holds for every template and for all
  values. The placeholder raises nothing: with values without backslash the engine
  returns.
\<close>

theorem unknown_placeholder_kept:
  assumes "plain u" and "u \<notin> fst ` set vars" and "list_all (\<lambda>kv. plain (fst kv)) vars"
    and "m = ph_dollar u \<or> m = ph_brace u"
  shows "replace_variables (a @ m @ b) vars
           = glue (replace_variables a vars) m (replace_variables b vars)
       \<and> (list_all (\<lambda>kv. no_bslash (str_of (snd kv))) vars \<longrightarrow>
            (\<exists>a' b'. replace_variables a vars = Inr a' \<and> replace_variables b vars = Inr b'
                 \<and> replace_variables (a @ m @ b) vars = Inr (a' @ m @ b')))"
proof -
  from assms have ub: "unknown_block vars m" by (auto simp: unknown_block_def)
  note eq = replace_variables_barrier [OF ub assms(3), of a b]
  show ?thesis
  proof (intro conjI impI)
    show "replace_variables (a @ m @ b) vars
            = glue (replace_variables a vars) m (replace_variables b vars)"
      by (rule eq)
  next
    assume nb: "list_all (\<lambda>kv. no_bslash (str_of (snd kv))) vars"
    from replace_variables_total [OF nb, of a] obtain a' where a': "replace_variables a vars = Inr a'"
      by blast
    from replace_variables_total [OF nb, of b] obtain b' where b': "replace_variables b vars = Inr b'"
      by blast
    from eq a' b' show "\<exists>a' b'. replace_variables a vars = Inr a' \<and> replace_variables b vars = Inr b'
        \<and> replace_variables (a @ m @ b) vars = Inr (a' @ m @ b')"
      by simp
  qed
qed

theorem unknown_placeholder_kept_witness:
  "plain ''UNKNOWN'' \<and> ''UNKNOWN'' \<notin> fst ` set [(''A'', Str ''x'')]
   \<and> list_all (\<lambda>kv. plain (fst kv)) [(''A'', Str ''x'')]
   \<and> list_all (\<lambda>kv. no_bslash (str_of (snd kv))) [(''A'', Str ''x'')]
   \<and> replace_variables ''a ${A} ${UNKNOWN} {{A}}'' [(''A'', Str ''x'')] = Inr ''a x ${UNKNOWN} x''
   \<and> replace_variables ''{{UNKNOWN}}${A}'' [(''A'', Str ''x'')] = Inr ''{{UNKNOWN}}x''"
proof -
  have h: "plain ''UNKNOWN''" "''UNKNOWN'' \<notin> fst ` set [(''A'', Str ''x'')]"
    "list_all (\<lambda>kv. plain (fst kv)) [(''A'', Str ''x'')]"
    and nb: "list_all (\<lambda>kv. no_bslash (str_of (snd kv))) [(''A'', Str ''x'')]"
    by (simp_all add: plain_def no_bslash_def bslash_def)
  have e: "replace_variables ''a ${A} '' [(''A'', Str ''x'')] = Inr ''a x ''"
    "replace_variables '' {{A}}'' [(''A'', Str ''x'')] = Inr '' x''"
    "replace_variables '''' [(''A'', Str ''x'')] = Inr ''''"
    "replace_variables ''${A}'' [(''A'', Str ''x'')] = Inr ''x''"
    by (simp_all add: replace_variables_def re_sub_def parse_template_def expand_def ph_dollar_def
      ph_brace_def bslash_def)
  from unknown_placeholder_kept [OF h, of "ph_dollar ''UNKNOWN''" "''a ${A} ''" "'' {{A}}''"]
    unknown_placeholder_kept [OF h, of "ph_brace ''UNKNOWN''" "''''" "''${A}''"]
    h nb e
  show ?thesis by (simp add: ph_dollar_def ph_brace_def)
qed

section \<open>The rows of the Table Reader and the mapping built from them\<close>











section \<open>The filename column and the mapping (C9)\<close>





section \<open>Values that are \<^verbatim>\<open>None\<close> (C10)\<close>



end
